theory Spec2Isabelle
  imports
    Complex_Main
    "HOL-Library.AList"
    "HOL-Library.Multiset"
    "HOL-Library.Char_ord"
    "HOL-Library.List_Lexorder"
    "HOL-Library.Word"
begin

unbundle bit_operations_syntax

section \<open>Python values and exceptions\<close>

text \<open>
  The utilities of \<^verbatim>\<open>fulcrum_utilities.py\<close> work on JSON-like Python values. A
  dictionary is an association list in insertion order with pairwise distinct keys; a
  float is its exact value together with the text \<^verbatim>\<open>repr\<close> prints for it (the
  text is what \<^verbatim>\<open>json.dumps\<close> writes, the value is what comparisons use).
\<close>

datatype pyval =
    PNone
  | PBool bool
  | PInt int
  | PFloat rat string
  | PStr string
  | PList "pyval list"
  | PDict "(string \<times> pyval) list"

type_synonym pydict = "(string \<times> pyval) list"

datatype pyexc = NameError | TypeError | ValueError | OSError | OverflowError

text \<open>An exception aborts the computation: the rest runs only on a result.\<close>

definition bind_exc :: "pyexc + 'a \<Rightarrow> ('a \<Rightarrow> pyexc + 'b) \<Rightarrow> pyexc + 'b" where
  "bind_exc r f = (case r of Inl e \<Rightarrow> Inl e | Inr x \<Rightarrow> f x)"

function str_nat :: "nat \<Rightarrow> string" where
  "str_nat n = (if n < 10 then [''0123456789'' ! n]
     else str_nat (n div 10) @ [''0123456789'' ! (n mod 10)])"
  by pat_completeness auto
termination
  by (relation "measure id") auto

declare str_nat.simps [simp del]


section \<open>\<^verbatim>\<open>paginate_records\<close>\<close>

text \<open>
  \<^verbatim>\<open>
  pages = []
  for i in range(0, len(records), page_size):
      pages.append(records[i:i + page_size])
  return pages
  \<close>
  \<^verbatim>\<open>range\<close> raises ValueError for a zero step and is empty for a negative step
  (its start 0 is never above \<^verbatim>\<open>len(records)\<close>).
\<close>

definition py_slice :: "'a list \<Rightarrow> nat \<Rightarrow> nat \<Rightarrow> 'a list" where
  "py_slice xs i j = take (j - i) (drop i xs)"

function paginate_loop :: "'a list \<Rightarrow> nat \<Rightarrow> nat \<Rightarrow> 'a list list \<Rightarrow> 'a list list" where
  "paginate_loop records page_size i pages =
     (if 0 < page_size \<and> i < length records
      then paginate_loop records page_size (i + page_size)
             (pages @ [py_slice records i (i + page_size)])
      else pages)"
  by pat_completeness auto
termination
  by (relation "measure (\<lambda>(records, page_size, i, pages). length records - i)") auto

declare paginate_loop.simps [simp del]

definition paginate_records :: "'a list \<Rightarrow> int \<Rightarrow> pyexc + 'a list list" where
  "paginate_records records page_size =
     (if page_size = 0 then Inl ValueError
      else if page_size < 0 then Inr []
      else Inr (paginate_loop records (nat page_size) 0 []))"

section \<open>\<^verbatim>\<open>flatten_nested_dict\<close>\<close>

text \<open>
  \<^verbatim>\<open>
  @staticmethod
  def flatten_nested_dict(data, parent_key='', sep='_'):
      items = []
      for k, v in data.items():
          new_key = f"{parent_key}{sep}{k}" if parent_key else k
          if isinstance(v, dict):
              items.extend(flatten_nested_dict(v, new_key, sep=sep).items())
          elif isinstance(v, list):
              for i, item in enumerate(v):
                  if isinstance(item, dict):
                      items.extend(flatten_nested_dict(item, f"{new_key}_{i}", sep=sep).items())
                  else:
                      items.append((f"{new_key}_{i}", item))
          else:
              items.append((new_key, v))
      return dict(items)
  \<close>
  \<^verbatim>\<open>dict(items)\<close> keeps the position of the first occurrence of a key and the value
  of its last occurrence, as \<open>AList.update\<close> does.
\<close>

definition dict_of_items :: "(string \<times> pyval) list \<Rightarrow> pydict" where
  "dict_of_items items = fold (\<lambda>(k, v) d. AList.update k v d) items []"

text \<open>
  The two inner calls are written with the bare name \<^verbatim>\<open>flatten_nested_dict\<close>. The
  function is a static method of the class \<^verbatim>\<open>FulcrumUtilities\<close>; the names of a
  class body are not in scope inside its methods, and the module defines and imports no
  global of that name. Evaluating the name therefore raises NameError, before any argument
  is evaluated.
\<close>

definition global_flatten_nested_dict :: "pydict \<Rightarrow> string \<Rightarrow> string \<Rightarrow> pyexc + pydict" where
  "global_flatten_nested_dict data parent_key sep = Inl NameError"

text \<open>The inner loop over \<^verbatim>\<open>enumerate(v)\<close>, from index \<open>i\<close> on.\<close>

fun flatten_list :: "string \<Rightarrow> string \<Rightarrow> nat \<Rightarrow> pyval list \<Rightarrow> pyexc + (string \<times> pyval) list" where
  "flatten_list new_key sep i [] = Inr []"
| "flatten_list new_key sep i (item # rest) =
     bind_exc
       (case item of
          PDict d \<Rightarrow> global_flatten_nested_dict d (new_key @ ''_'' @ str_nat i) sep
        | _ \<Rightarrow> Inr [(new_key @ ''_'' @ str_nat i, item)])
       (\<lambda>new. bind_exc (flatten_list new_key sep (Suc i) rest) (\<lambda>more. Inr (new @ more)))"

text \<open>The outer loop over \<^verbatim>\<open>data.items()\<close>.\<close>

fun flatten_items :: "pydict \<Rightarrow> string \<Rightarrow> string \<Rightarrow> pyexc + (string \<times> pyval) list" where
  "flatten_items [] parent_key sep = Inr []"
| "flatten_items ((k, v) # rest) parent_key sep =
     (let new_key = (if parent_key \<noteq> [] then parent_key @ sep @ k else k) in
      bind_exc
        (case v of
           PDict d \<Rightarrow> global_flatten_nested_dict d new_key sep
         | PList xs \<Rightarrow> flatten_list new_key sep 0 xs
         | _ \<Rightarrow> Inr [(new_key, v)])
        (\<lambda>new. bind_exc (flatten_items rest parent_key sep) (\<lambda>more. Inr (new @ more))))"

definition flatten_nested_dict :: "pydict \<Rightarrow> string \<Rightarrow> string \<Rightarrow> pyexc + pydict" where
  "flatten_nested_dict data parent_key sep =
     bind_exc (flatten_items data parent_key sep) (\<lambda>items. Inr (dict_of_items items))"




definition is_scalar :: "pyval \<Rightarrow> bool" where
  "is_scalar v = (case v of PList xs \<Rightarrow> False | PDict d \<Rightarrow> False | _ \<Rightarrow> True)"




section \<open>\<^verbatim>\<open>calculate_record_hash\<close>\<close>

text \<open>
  \<^verbatim>\<open>
  record_str = json.dumps(record, sort_keys=True, default=str)
  return hashlib.md5(record_str.encode()).hexdigest()
  \<close>
  \<^verbatim>\<open>json.dumps\<close> with its default separators and \<^verbatim>\<open>ensure_ascii\<close>: every
  character outside the printable ASCII range, the quote and the backslash are escaped.
  Every value of type \<^typ>\<open>pyval\<close> is serialisable, so \<^verbatim>\<open>default\<close> is never
  called. Characters are code points below 256.
\<close>

definition hex_byte :: "nat \<Rightarrow> string" where
  "hex_byte n = [''0123456789abcdef'' ! (n div 16), ''0123456789abcdef'' ! (n mod 16)]"

definition str_int :: "int \<Rightarrow> string" where
  "str_int i = (if i < 0 then ''-'' @ str_nat (nat (- i)) else str_nat (nat i))"

definition json_escape :: "char \<Rightarrow> string" where
  "json_escape c =
     (if c = CHR 0x22 then [CHR 0x5C, CHR 0x22]
      else if c = CHR 0x5C then [CHR 0x5C, CHR 0x5C]
      else if c = CHR 0x0A then [CHR 0x5C, CHR ''n'']
      else if c = CHR 0x0D then [CHR 0x5C, CHR ''r'']
      else if c = CHR 0x09 then [CHR 0x5C, CHR ''t'']
      else if c = CHR 0x0C then [CHR 0x5C, CHR ''f'']
      else if c = CHR 0x08 then [CHR 0x5C, CHR ''b'']
      else if (32::nat) \<le> of_char c \<and> of_char c \<le> (126::nat) then [c]
      else [CHR 0x5C, CHR ''u'', CHR ''0'', CHR ''0''] @ hex_byte (of_char c))"

definition json_string :: "string \<Rightarrow> string" where
  "json_string s = [CHR 0x22] @ concat (map json_escape s) @ [CHR 0x22]"

fun join :: "string \<Rightarrow> string list \<Rightarrow> string" where
  "join sep [] = []"
| "join sep [x] = x"
| "join sep (x # y # ys) = x @ sep @ join sep (y # ys)"

fun json_dumps :: "pyval \<Rightarrow> string" where
  "json_dumps PNone = ''null''"
| "json_dumps (PBool b) = (if b then ''true'' else ''false'')"
| "json_dumps (PInt i) = str_int i"
| "json_dumps (PFloat x r) = r"
| "json_dumps (PStr s) = json_string s"
| "json_dumps (PList xs) = ''['' @ join '', '' (map json_dumps xs) @ '']''"
| "json_dumps (PDict d) =
     ''{'' @ join '', '' (map (\<lambda>(k, v). json_string k @ '': '' @ json_dumps v) (sort_key fst d))
       @ ''}''"

subsection \<open>MD5 (RFC 1321), on 32-bit words as naturals below \<open>2 ^ 32\<close>\<close>

type_synonym md5_state = "nat \<times> nat \<times> nat \<times> nat"

definition md5_shift :: "nat list" where
  "md5_shift =
     [7, 12, 17, 22, 7, 12, 17, 22, 7, 12, 17, 22, 7, 12, 17, 22,
      5, 9, 14, 20, 5, 9, 14, 20, 5, 9, 14, 20, 5, 9, 14, 20,
      4, 11, 16, 23, 4, 11, 16, 23, 4, 11, 16, 23, 4, 11, 16, 23,
      6, 10, 15, 21, 6, 10, 15, 21, 6, 10, 15, 21, 6, 10, 15, 21]"

definition md5_sine :: "nat list" where
  "md5_sine =
     [0xd76aa478, 0xe8c7b756, 0x242070db, 0xc1bdceee, 0xf57c0faf, 0x4787c62a, 0xa8304613, 0xfd469501,
      0x698098d8, 0x8b44f7af, 0xffff5bb1, 0x895cd7be, 0x6b901122, 0xfd987193, 0xa679438e, 0x49b40821,
      0xf61e2562, 0xc040b340, 0x265e5a51, 0xe9b6c7aa, 0xd62f105d, 0x02441453, 0xd8a1e681, 0xe7d3fbc8,
      0x21e1cde6, 0xc33707d6, 0xf4d50d87, 0x455a14ed, 0xa9e3e905, 0xfcefa3f8, 0x676f02d9, 0x8d2a4c8a,
      0xfffa3942, 0x8771f681, 0x6d9d6122, 0xfde5380c, 0xa4beea44, 0x4bdecfa9, 0xf6bb4b60, 0xbebfbc70,
      0x289b7ec6, 0xeaa127fa, 0xd4ef3085, 0x04881d05, 0xd9d4d039, 0xe6db99e5, 0x1fa27cf8, 0xc4ac5665,
      0xf4292244, 0x432aff97, 0xab9423a7, 0xfc93a039, 0x655b59c3, 0x8f0ccc92, 0xffeff47d, 0x85845dd1,
      0x6fa87e4f, 0xfe2ce6e0, 0xa3014314, 0x4e0811a1, 0xf7537e82, 0xbd3af235, 0x2ad7d2bb, 0xeb86d391]"

definition add32 :: "nat \<Rightarrow> nat \<Rightarrow> nat" where
  "add32 x y = (x + y) mod 4294967296"

definition not32 :: "nat \<Rightarrow> nat" where
  "not32 x = 4294967295 - x"

definition rotl32 :: "nat \<Rightarrow> nat \<Rightarrow> nat" where
  "rotl32 x n = (x * 2 ^ n) mod 4294967296 + x div 2 ^ (32 - n)"

definition md5_mix :: "nat \<Rightarrow> nat \<Rightarrow> nat \<Rightarrow> nat \<Rightarrow> nat" where
  "md5_mix i b c d =
     (if i < 16 then (b AND c) OR (not32 b AND d)
      else if i < 32 then (d AND b) OR (not32 d AND c)
      else if i < 48 then b XOR c XOR d
      else c XOR (b OR not32 d))"

definition md5_index :: "nat \<Rightarrow> nat" where
  "md5_index i =
     (if i < 16 then i
      else if i < 32 then (5 * i + 1) mod 16
      else if i < 48 then (3 * i + 5) mod 16
      else (7 * i) mod 16)"

fun md5_round :: "nat list \<Rightarrow> nat \<Rightarrow> md5_state \<Rightarrow> md5_state" where
  "md5_round m i (a, b, c, d) =
     (d,
      add32 b (rotl32 (add32 (add32 (add32 (md5_mix i b c d) a) (md5_sine ! i)) (m ! md5_index i))
                 (md5_shift ! i)),
      b, c)"

function md5_rounds :: "nat list \<Rightarrow> nat \<Rightarrow> md5_state \<Rightarrow> md5_state" where
  "md5_rounds m i st = (if 64 \<le> i then st else md5_rounds m (i + 1) (md5_round m i st))"
  by pat_completeness auto
termination
  by (relation "measure (\<lambda>(m, i, st). 64 - i)") auto

declare md5_rounds.simps [simp del]

fun le_words :: "nat list \<Rightarrow> nat list" where
  "le_words (b0 # b1 # b2 # b3 # bs) =
     (b0 + 256 * b1 + 65536 * b2 + 16777216 * b3) # le_words bs"
| "le_words bs = []"

fun md5_add :: "md5_state \<Rightarrow> md5_state \<Rightarrow> md5_state" where
  "md5_add (a0, b0, c0, d0) (a, b, c, d) = (add32 a0 a, add32 b0 b, add32 c0 c, add32 d0 d)"

definition md5_block :: "md5_state \<Rightarrow> nat list \<Rightarrow> md5_state" where
  "md5_block st block = md5_add st (md5_rounds (le_words block) 0 st)"

definition le_bytes4 :: "nat \<Rightarrow> nat list" where
  "le_bytes4 n = [n mod 256, n div 256 mod 256, n div 65536 mod 256, n div 16777216 mod 256]"

function zeros :: "nat \<Rightarrow> nat list" where
  "zeros n = (if n = 0 then [] else 0 # zeros (n - 1))"
  by pat_completeness auto
termination
  by (relation "measure id") auto

declare zeros.simps [simp del]

definition md5_pad :: "nat list \<Rightarrow> nat list" where
  "md5_pad msg =
     msg @ [128] @ zeros ((119 - length msg mod 64) mod 64) @ le_bytes4 (8 * length msg mod 4294967296) @ le_bytes4 (8 * length msg div 4294967296)"

function md5_blocks :: "md5_state \<Rightarrow> nat list \<Rightarrow> md5_state" where
  "md5_blocks st bs =
     (if length bs < 64 then st else md5_blocks (md5_block st (take 64 bs)) (drop 64 bs))"
  by pat_completeness auto
termination
  by (relation "measure (\<lambda>(st, bs). length bs)") auto

declare md5_blocks.simps [simp del]

fun md5_hex :: "md5_state \<Rightarrow> string" where
  "md5_hex (a, b, c, d) =
     concat (map hex_byte (le_bytes4 a @ le_bytes4 b @ le_bytes4 c @ le_bytes4 d))"

definition md5_hexdigest :: "nat list \<Rightarrow> string" where
  "md5_hexdigest msg =
     md5_hex (md5_blocks (0x67452301, 0xefcdab89, 0x98badcfe, 0x10325476) (md5_pad msg))"

definition encode :: "string \<Rightarrow> nat list" where
  "encode s = map of_char s"

definition calculate_record_hash :: "pydict \<Rightarrow> string" where
  "calculate_record_hash record = md5_hexdigest (encode (json_dumps (PDict record)))"

text \<open>
  Two values have the same content up to the order of mapping keys, at every level of
  nesting: sequences keep their order, a mapping may list its (pairwise distinct) keys in
  any order.
\<close>

inductive same_content :: "pyval \<Rightarrow> pyval \<Rightarrow> bool" where
  same_leaf: "same_content v v"
| same_list: "list_all2 same_content xs ys \<Longrightarrow> same_content (PList xs) (PList ys)"
| same_dict:
    "list_all2 (\<lambda>p q. fst p = fst q \<and> same_content (snd p) (snd q)) d d' \<Longrightarrow>
     mset d'' = mset d' \<Longrightarrow> distinct (map fst d) \<Longrightarrow>
     same_content (PDict d) (PDict d'')"

section \<open>\<^verbatim>\<open>merge_records\<close>\<close>

text \<open>
  \<^verbatim>\<open>
  merged = {}
  for record in records:
      key = record.get(merge_key)
      if not key:
          continue
      if key not in merged:
          merged[key] = record
      else:
          current_updated = merged[key].get('_updated_at', '')
          new_updated = record.get('_updated_at', '')
          if new_updated > current_updated:
              merged[key] = record
  return list(merged.values())
  \<close>
\<close>

definition dict_get :: "pydict \<Rightarrow> string \<Rightarrow> pyval \<Rightarrow> pyval" where
  "dict_get d k dflt = (case map_of d k of None \<Rightarrow> dflt | Some v \<Rightarrow> v)"

text \<open>Truth value testing: \<^verbatim>\<open>not key\<close> is \<open>\<not> py_truthy key\<close>.\<close>

fun py_truthy :: "pyval \<Rightarrow> bool" where
  "py_truthy PNone = False"
| "py_truthy (PBool b) = b"
| "py_truthy (PInt i) = (i \<noteq> 0)"
| "py_truthy (PFloat x r) = (x \<noteq> 0)"
| "py_truthy (PStr s) = (s \<noteq> [])"
| "py_truthy (PList xs) = (xs \<noteq> [])"
| "py_truthy (PDict d) = (d \<noteq> [])"

text \<open>
  Keys of the dictionary \<^verbatim>\<open>merged\<close>. Numbers that are equal are the same key
  (\<^verbatim>\<open>1 == 1.0 == True\<close>, with equal hashes); lists and dictionaries are unhashable.
\<close>

datatype hkey = HNone | HNum rat | HStr string

fun py_hash_key :: "pyval \<Rightarrow> pyexc + hkey" where
  "py_hash_key PNone = Inr HNone"
| "py_hash_key (PBool b) = Inr (HNum (if b then 1 else 0))"
| "py_hash_key (PInt i) = Inr (HNum (of_int i))"
| "py_hash_key (PFloat x r) = Inr (HNum x)"
| "py_hash_key (PStr s) = Inr (HStr s)"
| "py_hash_key (PList xs) = Inl TypeError"
| "py_hash_key (PDict d) = Inl TypeError"

text \<open>The numeric value of a Boolean, an integer or a float.\<close>

fun py_num :: "pyval \<Rightarrow> rat option" where
  "py_num (PBool b) = Some (if b then 1 else 0)"
| "py_num (PInt i) = Some (of_int i)"
| "py_num (PFloat x r) = Some x"
| "py_num v = None"

text \<open>\<^verbatim>\<open>a == b\<close>: numbers by value, dictionaries regardless of the order of their keys.\<close>

fun py_eq :: "pyval \<Rightarrow> pyval \<Rightarrow> bool" where
  "py_eq PNone PNone = True"
| "py_eq (PStr s) (PStr t) = (s = t)"
| "py_eq (PList xs) (PList ys) = list_all2 py_eq xs ys"
| "py_eq (PDict d) (PDict e) =
     (length d = length e \<and>
      list_all (\<lambda>(k, v). case map_of e k of None \<Rightarrow> False | Some w \<Rightarrow> py_eq v w) d)"
| "py_eq a b = (case (py_num a, py_num b) of (Some x, Some y) \<Rightarrow> x = y | _ \<Rightarrow> False)"

text \<open>
  \<^verbatim>\<open>a > b\<close>: numbers by value, strings by code points, lists by their first differing
  elements; every other pair of types raises TypeError.
\<close>

fun py_gt :: "pyval \<Rightarrow> pyval \<Rightarrow> pyexc + bool" where
  "py_gt (PStr s) (PStr t) = Inr (t < s)"
| "py_gt (PList []) (PList ys) = Inr False"
| "py_gt (PList (x # xs)) (PList []) = Inr True"
| "py_gt (PList (x # xs)) (PList (y # ys)) =
     (if py_eq x y then py_gt (PList xs) (PList ys) else py_gt x y)"
| "py_gt a b = (case (py_num a, py_num b) of (Some x, Some y) \<Rightarrow> Inr (y < x) | _ \<Rightarrow> Inl TypeError)"

text \<open>One iteration of the loop, on the insertion-ordered dictionary \<^verbatim>\<open>merged\<close>.\<close>

definition merge_step :: "string \<Rightarrow> (hkey \<times> pydict) list \<Rightarrow> pydict \<Rightarrow> pyexc + (hkey \<times> pydict) list" where
  "merge_step merge_key merged record =
     (let key = dict_get record merge_key PNone in
      if \<not> py_truthy key then Inr merged
      else bind_exc (py_hash_key key) (\<lambda>h.
        case map_of merged h of
          None \<Rightarrow> Inr (merged @ [(h, record)])
        | Some current \<Rightarrow>
            bind_exc
              (py_gt (dict_get record ''_updated_at'' (PStr ''''))
                     (dict_get current ''_updated_at'' (PStr '''')))
              (\<lambda>newer. Inr (if newer then AList.update h record merged else merged))))"

fun merge_loop :: "string \<Rightarrow> (hkey \<times> pydict) list \<Rightarrow> pydict list \<Rightarrow> pyexc + (hkey \<times> pydict) list" where
  "merge_loop merge_key merged [] = Inr merged"
| "merge_loop merge_key merged (record # records) =
     bind_exc (merge_step merge_key merged record) (\<lambda>merged'. merge_loop merge_key merged' records)"

definition merge_records :: "pydict list \<Rightarrow> string \<Rightarrow> pyexc + pydict list" where
  "merge_records records merge_key =
     bind_exc (merge_loop merge_key [] records) (\<lambda>merged. Inr (map snd merged))"

text \<open>
  The group of a record: the key under which the loop files it, if it does. The raw
  \<^verbatim>\<open>_updated_at\<close> text of a record (empty when the field is absent), and whether
  the field is absent or a string.
\<close>

definition group_of :: "string \<Rightarrow> pydict \<Rightarrow> hkey option" where
  "group_of merge_key record =
     (let key = dict_get record merge_key PNone in
      if py_truthy key then (case py_hash_key key of Inl e \<Rightarrow> None | Inr h \<Rightarrow> Some h)
      else None)"

definition updated_raw :: "pydict \<Rightarrow> string" where
  "updated_raw record =
     (case dict_get record ''_updated_at'' (PStr '''') of PStr s \<Rightarrow> s | _ \<Rightarrow> '''')"

definition text_timestamp :: "pydict \<Rightarrow> bool" where
  "text_timestamp record =
     (case dict_get record ''_updated_at'' (PStr '''') of PStr s \<Rightarrow> True | _ \<Rightarrow> False)"

text \<open>
  The invariant of the loop after the records \<open>seen\<close>: \<^verbatim>\<open>merged\<close> holds, for every
  group met so far, the first record of the group whose raw timestamp is greatest.
\<close>

definition first_latest :: "string \<Rightarrow> pydict list \<Rightarrow> hkey \<Rightarrow> pydict \<Rightarrow> bool" where
  "first_latest merge_key seen h record \<longleftrightarrow>
     group_of merge_key record = Some h \<and> text_timestamp record \<and>
     (\<exists>before after. seen = before @ record # after
        \<and> (\<forall>x \<in> set before. group_of merge_key x = Some h \<longrightarrow> updated_raw x < updated_raw record)
        \<and> (\<forall>x \<in> set after. group_of merge_key x = Some h \<longrightarrow> updated_raw x \<le> updated_raw record))"

definition merge_inv :: "string \<Rightarrow> pydict list \<Rightarrow> (hkey \<times> pydict) list \<Rightarrow> bool" where
  "merge_inv merge_key seen merged \<longleftrightarrow>
     distinct (map fst merged)
     \<and> (\<forall>h record. map_of merged h = Some record \<longrightarrow> first_latest merge_key seen h record)
     \<and> (\<forall>x \<in> set seen. \<forall>h. group_of merge_key x = Some h \<longrightarrow> map_of merged h \<noteq> None)"

text \<open>
  The fields of a timestamp written \<^verbatim>\<open>YYYY-MM-DDTHH:MM:SSZ\<close>, as numbers: year, month,
  day, hour, minute, second. Two such field lists compare as the instants do.
\<close>

definition digits_value :: "string \<Rightarrow> nat" where
  "digits_value s = foldl (\<lambda>n c. 10 * n + (of_char c - 48)) 0 s"

definition iso_utc_fields :: "string \<Rightarrow> nat list" where
  "iso_utc_fields s =
     map digits_value
       [take 4 s, take 2 (drop 5 s), take 2 (drop 8 s),
        take 2 (drop 11 s), take 2 (drop 14 s), take 2 (drop 17 s)]"

section \<open>\<^verbatim>\<open>parse_fulcrum_date\<close>\<close>

text \<open>
  \<^verbatim>\<open>
  if not date_string:
      return None
  try:
      return datetime.fromisoformat(date_string.replace('Z', '+00:00'))
  except ValueError:
      try:
          timestamp = float(date_string) / 1000  # Convert from milliseconds
          return datetime.fromtimestamp(timestamp)
      except (ValueError, OSError):
          logger.warning(f"Could not parse date: {date_string}")
          return None
  \<close>
  The three functions of the standard library are parameters: which texts they accept
  depends on the interpreter. A float is a number, an infinity or NaN; the rounding of a
  quotient is not modelled. The result is the returned value or the exception that escapes,
  together with the warnings logged.
\<close>

datatype pyfloat = FNum rat | FInf | FNegInf | FNaN

fun float_div_1000 :: "pyfloat \<Rightarrow> pyfloat" where
  "float_div_1000 (FNum x) = FNum (x / 1000)"
| "float_div_1000 x = x"

record 'd stdlib =
  fromisoformat :: "string \<Rightarrow> pyexc + 'd"
  float_of_str :: "string \<Rightarrow> pyexc + pyfloat"
  fromtimestamp :: "pyfloat \<Rightarrow> pyexc + 'd"

definition replace_Z :: "string \<Rightarrow> string" where
  "replace_Z s = concat (map (\<lambda>c. if c = CHR ''Z'' then ''+00:00'' else [c]) s)"

definition could_not_parse :: "string \<Rightarrow> string" where
  "could_not_parse date_string = ''Could not parse date: '' @ date_string"

text \<open>The two attempts: the ISO text, and the milliseconds since the epoch.\<close>

definition iso_attempt :: "'d stdlib \<Rightarrow> string \<Rightarrow> pyexc + 'd" where
  "iso_attempt lib date_string = fromisoformat lib (replace_Z date_string)"

definition millis_attempt :: "'d stdlib \<Rightarrow> string \<Rightarrow> pyexc + 'd" where
  "millis_attempt lib date_string =
     bind_exc (float_of_str lib date_string) (\<lambda>x. fromtimestamp lib (float_div_1000 x))"

definition except_value_os ::
  "string \<Rightarrow> pyexc + 'd \<Rightarrow> (pyexc + 'd option) \<times> string list" where
  "except_value_os date_string r =
     (case r of
        Inr d \<Rightarrow> (Inr (Some d), [])
      | Inl e \<Rightarrow>
          if e = ValueError \<or> e = OSError then (Inr None, [could_not_parse date_string])
          else (Inl e, []))"

definition parse_fulcrum_date ::
  "'d stdlib \<Rightarrow> string \<Rightarrow> (pyexc + 'd option) \<times> string list" where
  "parse_fulcrum_date lib date_string =
     (if date_string = [] then (Inr None, [])
      else
        case iso_attempt lib date_string of
          Inr d \<Rightarrow> (Inr (Some d), [])
        | Inl e \<Rightarrow>
            if e = ValueError then except_value_os date_string (millis_attempt lib date_string)
            else (Inl e, []))"

text \<open>
  An environment for the examples below: the answers of the library on the texts and
  numbers that the examples use. Every other argument is rejected with ValueError.
  Datetimes are seconds since the epoch.
\<close>

definition sample_lib :: "int stdlib" where
  "sample_lib =
     \<lparr>fromisoformat =
        (\<lambda>s. if s = ''2024-01-01T10:00:00+00:00'' then Inr 1704103200 else Inl ValueError),
      float_of_str =
        (\<lambda>s. if s = ''1704067200000'' then Inr (FNum 1704067200000)
             else if s = ''inf'' then Inr FInf
             else Inl ValueError),
      fromtimestamp =
        (\<lambda>x. if x = FNum 1704067200 then Inr 1704067200
             else if x = FInf then Inl OverflowError
             else Inl ValueError)\<rparr>"

section \<open>Properties of \<^verbatim>\<open>paginate_records\<close>\<close>

lemma paginate_loop_concat:
  "0 < page_size \<Longrightarrow>
   concat (paginate_loop records page_size i pages) = concat pages @ drop i records"
proof (induction records page_size i pages rule: paginate_loop.induct)
  case (1 records page_size i pages)
  show ?case
  proof (cases "i < length records")
    case True
    have "take page_size (drop i records) @ drop (i + page_size) records = drop i records"
      by (metis add.commute append_take_drop_id drop_drop)
    with 1 True show ?thesis
      by (simp add: paginate_loop.simps [of records page_size i pages] py_slice_def)
  next
    case False
    then show ?thesis
      by (simp add: paginate_loop.simps [of records page_size i pages])
  qed
qed

lemma paginate_loop_pages:
  "0 < page_size \<Longrightarrow>
   \<exists>new. paginate_loop records page_size i pages = pages @ new
     \<and> (\<forall>p \<in> set (butlast new). length p = page_size)
     \<and> (\<forall>p \<in> set new. 1 \<le> length p \<and> length p \<le> page_size)
     \<and> (length records \<le> i \<longrightarrow> new = [])"
proof (induction records page_size i pages rule: paginate_loop.induct)
  case (1 records page_size i pages)
  show ?case
  proof (cases "i < length records")
    case True
    define s where "s = py_slice records i (i + page_size)"
    from 1 True obtain new where
      loop: "paginate_loop records page_size (i + page_size) (pages @ [s]) = (pages @ [s]) @ new"
      and full: "\<forall>p \<in> set (butlast new). length p = page_size"
      and bounds: "\<forall>p \<in> set new. 1 \<le> length p \<and> length p \<le> page_size"
      and fin: "length records \<le> i + page_size \<longrightarrow> new = []"
      unfolding s_def by blast
    have len_s: "length s = min page_size (length records - i)"
      by (simp add: s_def py_slice_def)
    have eq: "paginate_loop records page_size i pages = pages @ (s # new)"
      using loop True 1(2)
      by (simp add: paginate_loop.simps [of records page_size i pages] s_def)
    have "\<forall>p \<in> set (butlast (s # new)). length p = page_size"
    proof (cases "new = []")
      case True
      then show ?thesis by simp
    next
      case False
      with fin have "i + page_size < length records" by auto
      with len_s have "length s = page_size" by simp
      with full False show ?thesis by simp
    qed
    moreover have "\<forall>p \<in> set (s # new). 1 \<le> length p \<and> length p \<le> page_size"
      using bounds len_s True 1(2) by auto
    ultimately show ?thesis
      using eq True by (intro exI [of _ "s # new"]) simp
  next
    case False
    then show ?thesis
      by (intro exI [of _ "[]"])
        (simp add: paginate_loop.simps [of records page_size i pages])
  qed
qed

text \<open>
  C7. For a page size of at least 1, \<^verbatim>\<open>paginate_records\<close> returns pages whose
  concatenation is the input in order; every page but the last has exactly
  \<^verbatim>\<open>page_size\<close> elements, the last page has between 1 and \<^verbatim>\<open>page_size\<close>
  elements, and an empty input gives no page at all.
\<close>

theorem paginate_records_pages:
  assumes "1 \<le> page_size"
  shows "\<exists>pages. paginate_records records page_size = Inr pages
    \<and> concat pages = records
    \<and> (\<forall>p \<in> set (butlast pages). int (length p) = page_size)
    \<and> (pages \<noteq> [] \<longrightarrow> 1 \<le> length (last pages) \<and> int (length (last pages)) \<le> page_size)
    \<and> (records = [] \<longrightarrow> pages = [])"
proof -
  define n where "n = nat page_size"
  from assms have n: "0 < n" "int n = page_size" by (simp_all add: n_def)
  have res: "paginate_records records page_size = Inr (paginate_loop records n 0 [])"
    using assms by (simp add: paginate_records_def n_def)
  from paginate_loop_pages [OF n(1), of records 0 "[]"] obtain new where
    new: "paginate_loop records n 0 [] = new"
    and full: "\<forall>p \<in> set (butlast new). length p = n"
    and bounds: "\<forall>p \<in> set new. 1 \<le> length p \<and> length p \<le> n"
    and fin: "length records \<le> 0 \<longrightarrow> new = []"
    by auto
  have "concat new = records"
    using paginate_loop_concat [OF n(1), of records 0 "[]"] new by simp
  moreover have "\<forall>p \<in> set (butlast new). int (length p) = page_size"
    using full n(2) by auto
  moreover have "new \<noteq> [] \<longrightarrow> 1 \<le> length (last new) \<and> int (length (last new)) \<le> page_size"
    using bounds n(2) by (metis last_in_set of_nat_le_iff)
  moreover have "records = [] \<longrightarrow> new = []"
    using fin by simp
  ultimately show ?thesis
    using res new by simp
qed

theorem paginate_records_pages_witness:
  "(1::int) \<le> 2 \<and> paginate_records [1, 2, 3, 4, 5 :: nat] 2 = Inr [[1, 2], [3, 4], [5]]"
proof -
  have h: "(1::int) \<le> 2" by simp
  from paginate_records_pages [OF h, of "[1, 2, 3, 4, 5 :: nat]"]
  obtain pages where "paginate_records [1, 2, 3, 4, 5 :: nat] 2 = Inr pages"
    by blast
  moreover have "paginate_records [1, 2, 3, 4, 5 :: nat] 2 = Inr [[1, 2], [3, 4], [5]]"
    by (simp add: paginate_records_def py_slice_def paginate_loop.simps)
  ultimately show ?thesis by simp
qed

text \<open>
  C6 (as stated, refuted). A page size below 1 does not make \<^verbatim>\<open>paginate_records\<close>
  fail with a configuration error: with a negative page size it returns the empty page
  list.
\<close>

theorem paginate_records_negative_counterexample:
  "paginate_records [PInt 1, PInt 2, PInt 3] (- 1) = Inr []"
  by (simp add: paginate_records_def)

text \<open>
  C6 (amended). For a page size below 1 and every record list: a page size of 0 fails with
  the ValueError that \<^verbatim>\<open>range\<close> raises for a zero step, and a negative page size
  returns the empty page list.
\<close>

theorem paginate_records_below_one:
  assumes "page_size < 1"
  shows "paginate_records records page_size =
    (if page_size = 0 then Inl ValueError else Inr [])"
  using assms by (simp add: paginate_records_def)

theorem paginate_records_below_one_witness:
  "(0::int) < 1 \<and> paginate_records [PInt 1, PInt 2, PInt 3] 0 = Inl ValueError"
  using paginate_records_below_one [of 0 "[PInt 1, PInt 2, PInt 3]"] by simp

section \<open>Properties of \<^verbatim>\<open>flatten_nested_dict\<close>\<close>

lemma bind_exc_Inr_iff:
  "bind_exc r f = Inr y \<longleftrightarrow> (\<exists>x. r = Inr x \<and> f x = Inr y)"
  by (cases r) (simp_all add: bind_exc_def)

lemma bind_exc_simps [simp]:
  "bind_exc (Inl e) f = Inl e"
  "bind_exc (Inr x) f = f x"
  by (simp_all add: bind_exc_def)

lemma set_update_subset: "set (AList.update k v d) \<subseteq> insert (k, v) (set d)"
  by (induction d) auto
























text \<open>
  C4 (the code departs from the claim). On \<^verbatim>\<open>{"a": {"b": 1, "c": 2}}\<close> the call
  raises NameError instead of returning \<^verbatim>\<open>{"a_b": 1, "a_c": 2}\<close>, and so does a
  mapping inside a sequence; the index of a sequence element is joined with
  \<^verbatim>\<open>_\<close> whatever the separator is.
\<close>

theorem flatten_nested_mapping_raises:
  "flatten_nested_dict [(''a'', PDict [(''b'', PInt 1), (''c'', PInt 2)])] '''' ''_'' = Inl NameError
   \<and> flatten_nested_dict [(''a'', PList [PDict [(''b'', PInt 1)]])] '''' ''_'' = Inl NameError
   \<and> flatten_nested_dict [(''a'', PList [PInt 1, PInt 2, PInt 3])] '''' ''.''
       = Inr [(''a_0'', PInt 1), (''a_1'', PInt 2), (''a_2'', PInt 3)]"
  by (simp add: flatten_nested_dict_def dict_of_items_def str_nat.simps
      global_flatten_nested_dict_def)




section \<open>Properties of \<^verbatim>\<open>calculate_record_hash\<close>\<close>

lemma filter_key_singleton:
  "distinct (map f zs) \<Longrightarrow> k \<in> set zs \<Longrightarrow> filter (\<lambda>x. f k = f x) zs = [k]"
proof (induction zs)
  case Nil
  then show ?case by simp
next
  case (Cons z zs)
  show ?case
  proof (cases "k = z")
    case True
    from Cons.prems have "\<forall>x \<in> set zs. f z \<noteq> f x" by auto
    then have "filter (\<lambda>x. f z = f x) zs = []" by (simp add: filter_empty_conv)
    with True show ?thesis by simp
  next
    case False
    with Cons.prems have k: "k \<in> set zs" by simp
    have "f z \<notin> f ` set zs" using Cons.prems(1) by simp
    moreover have "f k \<in> f ` set zs" using k by (rule imageI)
    ultimately have "f k \<noteq> f z" by metis
    with Cons k show ?thesis by simp
  qed
qed

lemma sort_key_permutation:
  assumes "mset xs = mset ys" and "distinct (map f ys)"
  shows "sort_key f xs = sort_key f ys"
proof (rule properties_for_sort_key)
  show "mset (sort_key f ys) = mset xs"
    using assms by simp
  show "sorted (map f (sort_key f ys))"
    by simp
next
  fix k
  assume "k \<in> set (sort_key f ys)"
  then have k: "k \<in> set ys" by simp
  have "mset (map f xs) = mset (map f ys)"
    using assms(1) by (metis mset_map)
  then have dx: "distinct (map f xs)"
    using assms(2) by (metis mset_eq_imp_distinct_iff)
  have "mset (map f (sort_key f ys)) = mset (map f ys)"
    by simp
  then have ds: "distinct (map f (sort_key f ys))"
    using assms(2) by (metis mset_eq_imp_distinct_iff)
  from k assms(1) have kx: "k \<in> set xs" by (metis mset_eq_setD)
  show "filter (\<lambda>x. f k = f x) (sort_key f ys) = filter (\<lambda>x. f k = f x) xs"
    using filter_key_singleton [OF ds, of k] filter_key_singleton [OF dx kx] k by simp
qed

lemma insort_key_related:
  assumes "list_all2 R xs ys" and "R x y" and "\<And>a b. R a b \<Longrightarrow> f a = g b"
  shows "list_all2 R (insort_key f x xs) (insort_key g y ys)"
  using assms(1)
proof (induction rule: list_all2_induct)
  case Nil
  then show ?case using assms(2) by simp
next
  case (Cons a as b bs)
  with assms(2) assms(3) [OF assms(2)] assms(3) [of a b] show ?case by simp
qed

lemma sort_key_related:
  assumes "list_all2 R xs ys" and "\<And>a b. R a b \<Longrightarrow> f a = g b"
  shows "list_all2 R (sort_key f xs) (sort_key g ys)"
  using assms(1)
proof (induction rule: list_all2_induct)
  case Nil
  then show ?case by simp
next
  case (Cons a as b bs)
  then show ?case
    by (simp add: insort_key_related [where R = R and f = f and g = g] assms(2))
qed

lemma map_eq_related:
  "list_all2 R xs ys \<Longrightarrow> (\<And>a b. R a b \<Longrightarrow> h a = h' b) \<Longrightarrow> map h xs = map h' ys"
  by (induction rule: list_all2_induct) simp_all

lemma json_dumps_same_content:
  "same_content a b \<Longrightarrow> json_dumps a = json_dumps b"
proof (induction rule: same_content.induct)
  case (same_leaf v)
  then show ?case by simp
next
  case (same_list xs ys)
  then have "map json_dumps xs = map json_dumps ys"
    by (intro map_eq_related [where R = "\<lambda>x y. same_content x y \<and> json_dumps x = json_dumps y"]) auto
  then show ?case by simp
next
  case (same_dict d d' d'')
  define R where "R = (\<lambda>p q :: string \<times> pyval. fst p = fst q \<and> json_dumps (snd p) = json_dumps (snd q))"
  define enc where "enc = (\<lambda>(k, v). json_string k @ '': '' @ json_dumps v)"
  from same_dict(1) have rel: "list_all2 R d d'"
    unfolding R_def by (rule list_all2_mono) simp
  then have "map fst d = map fst d'"
    by (rule map_eq_related) (simp add: R_def)
  with same_dict(3) have dist: "distinct (map fst d')" by simp
  have "list_all2 R (sort_key fst d) (sort_key fst d')"
    using rel by (rule sort_key_related) (simp add: R_def)
  then have "map enc (sort_key fst d) = map enc (sort_key fst d')"
    by (rule map_eq_related) (auto simp: R_def enc_def split: prod.splits)
  moreover have "sort_key fst d'' = sort_key fst d'"
    using same_dict(2) dist by (rule sort_key_permutation)
  ultimately show ?case
    by (simp add: enc_def)
qed

lemma str_nat_digits: "str_nat n \<noteq> [] \<and> hd (str_nat n) \<in> set ''0123456789''"
proof (induction n rule: str_nat.induct)
  case (1 n)
  show ?case
  proof (cases "n < 10")
    case True
    then have "''0123456789'' ! n \<in> set ''0123456789''"
      by (intro nth_mem) simp
    with True show ?thesis
      by (subst (1 2) str_nat.simps) simp
  next
    case False
    with 1 show ?thesis
      by (subst (1 2) str_nat.simps) simp
  qed
qed

lemma json_string_not_number: "json_dumps (PStr s) \<noteq> json_dumps (PInt i)"
proof -
  have "hd (json_dumps (PStr s)) = CHR 0x22"
    by (simp add: json_string_def)
  moreover have "hd (json_dumps (PInt i)) \<noteq> CHR 0x22"
    using str_nat_digits [of "nat i"] str_nat_digits [of "nat (- i)"]
    by (auto simp: str_int_def)
  ultimately show ?thesis by metis
qed

lemmas md5_eval = md5_hexdigest_def md5_pad_def md5_blocks.simps md5_block_def md5_rounds.simps
  md5_mix_def md5_index_def md5_sine_def md5_shift_def add32_def not32_def rotl32_def hex_byte_def
  encode_def le_bytes4_def zeros.simps

lemmas json_eval = calculate_record_hash_def json_string_def json_escape_def str_int_def
  str_nat.simps

lemma hash_a_int: "calculate_record_hash [(''a'', PInt 1)] = ''42b7b4f2921788ea14dac5566e6f06d0''"
  by (simp add: json_eval md5_eval)

lemma hash_a_float:
  "calculate_record_hash [(''a'', PFloat 1 ''1.0'')] = ''4b8937963abc9e9148b4524d4f837b4b''"
  by (simp add: json_eval md5_eval)

lemma hash_a_str:
  "calculate_record_hash [(''a'', PStr ''1'')] = ''44550aefb0b85d9db968d11e4fdfa6bc''"
  by (simp add: json_eval md5_eval)

text \<open>
  C2 (as stated, refuted). The integer 1 and the float 1.0 are equal numbers, but
  \<^verbatim>\<open>json.dumps\<close> writes them as \<^verbatim>\<open>1\<close> and \<^verbatim>\<open>1.0\<close>: the two records
  get different digests.
\<close>

theorem record_hash_numeric_counterexample:
  "py_eq (PInt 1) (PFloat 1 ''1.0'')
   \<and> calculate_record_hash [(''a'', PInt 1)] \<noteq> calculate_record_hash [(''a'', PFloat 1 ''1.0'')]"
  by (simp add: hash_a_int hash_a_float)

text \<open>
  C2 (amended). Two records with the same content up to the order of mapping keys, at every
  level of nesting, have the same digest. A string is never encoded as an integer is, and
  the string \<^verbatim>\<open>"1"\<close> and the number 1 get different digests. Numbers are encoded as
  they are represented, so nothing is claimed for an integer and a float of the same value.
\<close>

theorem record_hash_key_order:
  "(same_content (PDict r) (PDict r') \<longrightarrow> calculate_record_hash r = calculate_record_hash r')
   \<and> json_dumps (PStr s) \<noteq> json_dumps (PInt i)
   \<and> calculate_record_hash [(''a'', PStr ''1'')] \<noteq> calculate_record_hash [(''a'', PInt 1)]"
proof (intro conjI impI)
  assume "same_content (PDict r) (PDict r')"
  then have "json_dumps (PDict r) = json_dumps (PDict r')"
    by (rule json_dumps_same_content)
  then show "calculate_record_hash r = calculate_record_hash r'"
    by (simp only: calculate_record_hash_def)
next
  show "json_dumps (PStr s) \<noteq> json_dumps (PInt i)"
    by (rule json_string_not_number)
next
  show "calculate_record_hash [(''a'', PStr ''1'')] \<noteq> calculate_record_hash [(''a'', PInt 1)]"
    by (simp add: hash_a_int hash_a_str)
qed

theorem record_hash_key_order_witness:
  "same_content
     (PDict [(''a'', PInt 1), (''b'', PDict [(''x'', PNone), (''y'', PStr ''t'')])])
     (PDict [(''b'', PDict [(''y'', PStr ''t''), (''x'', PNone)]), (''a'', PInt 1)])
   \<and> calculate_record_hash [(''a'', PInt 1), (''b'', PDict [(''x'', PNone), (''y'', PStr ''t'')])]
     = calculate_record_hash [(''b'', PDict [(''y'', PStr ''t''), (''x'', PNone)]), (''a'', PInt 1)]"
proof -
  have inner: "same_content (PDict [(''x'', PNone), (''y'', PStr ''t'')])
      (PDict [(''y'', PStr ''t''), (''x'', PNone)])"
    by (rule same_dict [where d' = "[(''x'', PNone), (''y'', PStr ''t'')]"])
      (simp_all add: same_leaf)
  have outer: "same_content
     (PDict [(''a'', PInt 1), (''b'', PDict [(''x'', PNone), (''y'', PStr ''t'')])])
     (PDict [(''b'', PDict [(''y'', PStr ''t''), (''x'', PNone)]), (''a'', PInt 1)])"
    by (rule same_dict [where d' = "[(''a'', PInt 1), (''b'', PDict [(''y'', PStr ''t''), (''x'', PNone)])]"])
      (simp_all add: same_leaf inner)
  with record_hash_key_order
    [of "[(''a'', PInt 1), (''b'', PDict [(''x'', PNone), (''y'', PStr ''t'')])]"
        "[(''b'', PDict [(''y'', PStr ''t''), (''x'', PNone)]), (''a'', PInt 1)]"]
  show ?thesis by simp
qed

section \<open>Properties of \<^verbatim>\<open>merge_records\<close>\<close>

lemma merge_step_falsy:
  "\<not> py_truthy (dict_get r mk PNone) \<Longrightarrow> merge_step mk m r = Inr m"
  by (simp add: merge_step_def)

lemma merge_loop_filter:
  assumes "\<And>r. \<not> P r \<Longrightarrow> \<not> py_truthy (dict_get r mk PNone)"
  shows "merge_loop mk m (filter P rs) = merge_loop mk m rs"
  by (induction rs arbitrary: m) (simp_all add: merge_step_falsy assms)

lemma merge_step_values:
  assumes "merge_step mk m r = Inr m'" and "(h, x) \<in> set m'"
  shows "(h, x) \<in> set m \<or> (x = r \<and> py_truthy (dict_get r mk PNone))"
proof (cases "py_truthy (dict_get r mk PNone)")
  case False
  with assms show ?thesis by (simp add: merge_step_falsy)
next
  case True
  with assms(1) obtain k where step: "(case map_of m k of
          None \<Rightarrow> Inr (m @ [(k, r)])
        | Some current \<Rightarrow>
            bind_exc
              (py_gt (dict_get r ''_updated_at'' (PStr ''''))
                     (dict_get current ''_updated_at'' (PStr '''')))
              (\<lambda>newer. Inr (if newer then AList.update k r m else m))) = Inr m'"
    by (auto simp: merge_step_def bind_exc_Inr_iff)
  show ?thesis
  proof (cases "map_of m k")
    case None
    with step assms(2) True show ?thesis by auto
  next
    case (Some current)
    with step obtain newer where "m' = (if newer then AList.update k r m else m)"
      by (auto simp: bind_exc_Inr_iff)
    with assms(2) True set_update_subset [of k r m] show ?thesis
      by (auto split: if_splits)
  qed
qed

lemma merge_loop_values:
  "merge_loop mk m rs = Inr m' \<Longrightarrow> (h, x) \<in> set m' \<Longrightarrow>
   (h, x) \<in> set m \<or> (x \<in> set rs \<and> py_truthy (dict_get x mk PNone))"
proof (induction rs arbitrary: m)
  case Nil
  then show ?case by simp
next
  case (Cons r rs)
  from Cons.prems(1) obtain m1 where step: "merge_step mk m r = Inr m1"
    and rest: "merge_loop mk m1 rs = Inr m'"
    by (auto simp: bind_exc_Inr_iff)
  from Cons.IH [OF rest Cons.prems(2)] merge_step_values [OF step, of h x]
  show ?case by auto
qed

lemma merge_records_values:
  assumes "merge_records records mk = Inr out" and "x \<in> set out"
  shows "x \<in> set records \<and> py_truthy (dict_get x mk PNone)"
proof -
  from assms(1) obtain m where loop: "merge_loop mk [] records = Inr m" and out: "out = map snd m"
    by (auto simp: merge_records_def bind_exc_Inr_iff)
  from assms(2) out obtain h where "(h, x) \<in> set m" by auto
  from merge_loop_values [OF loop this] show ?thesis by simp
qed

lemma merge_records_filter:
  assumes "\<And>r. \<not> P r \<Longrightarrow> \<not> py_truthy (dict_get r mk PNone)"
  shows "merge_records (filter P records) mk = merge_records records mk"
  by (simp add: merge_records_def merge_loop_filter [where P = P] assms)

lemmas merge_eval = merge_records_def merge_step_def dict_get_def Let_def

text \<open>
  C10. A record whose identity value is falsy (the empty string, None, 0, False, an empty
  container), or absent, is dropped silently: the result, an exception included, is that of
  the batch without those records, and every record of the output is a record of the input
  with a truthy identity value. In particular, records whose identity is the empty string
  are never merged with each other.
\<close>

theorem merge_drops_falsy_identity:
  "merge_records records mk
     = merge_records (filter (\<lambda>r. py_truthy (dict_get r mk PNone)) records) mk
   \<and> (\<forall>out. merge_records records mk = Inr out \<longrightarrow>
        (\<forall>r \<in> set out. r \<in> set records \<and> py_truthy (dict_get r mk PNone)))"
  using merge_records_filter [of "\<lambda>r. py_truthy (dict_get r mk PNone)" mk records]
    merge_records_values [of records mk]
  by auto

theorem merge_drops_falsy_identity_witness:
  "merge_records
     [[(''id'', PStr ''''), (''v'', PInt 1)], [(''id'', PStr ''''), (''v'', PInt 2)],
      [(''id'', PNone)], [(''id'', PInt 0)], [(''id'', PBool False)], [(''id'', PList [])],
      [(''id'', PStr ''7''), (''v'', PInt 3)]] ''id''
     = Inr [[(''id'', PStr ''7''), (''v'', PInt 3)]]
   \<and> merge_records
     [[(''id'', PStr ''''), (''v'', PInt 1)], [(''id'', PStr ''''), (''v'', PInt 2)],
      [(''id'', PNone)], [(''id'', PInt 0)], [(''id'', PBool False)], [(''id'', PList [])],
      [(''id'', PStr ''7''), (''v'', PInt 3)]] ''id''
     = merge_records [[(''id'', PStr ''7''), (''v'', PInt 3)]] ''id''"
proof -
  have "merge_records [[(''id'', PStr ''7''), (''v'', PInt 3)]] ''id''
      = Inr [[(''id'', PStr ''7''), (''v'', PInt 3)]]"
    by (simp add: merge_eval)
  with merge_drops_falsy_identity
    [of "[[(''id'', PStr ''''), (''v'', PInt 1)], [(''id'', PStr ''''), (''v'', PInt 2)],
      [(''id'', PNone)], [(''id'', PInt 0)], [(''id'', PBool False)], [(''id'', PList [])],
      [(''id'', PStr ''7''), (''v'', PInt 3)]]" "''id''"]
  show ?thesis by (simp add: dict_get_def)
qed

text \<open>
  C8 (as stated, refuted). The function returns the surviving records only. A batch whose
  one record lacks the identity field and the empty batch return the same value: no
  warning is returned for the exclusion (and none is logged).
\<close>

theorem merge_no_warning_counterexample:
  "merge_records [[(''name'', PStr ''x'')]] ''id'' = Inr []
   \<and> merge_records [] ''id'' = Inr []"
  by (simp add: merge_eval)

text \<open>
  C8 (amended). Every record lacking the identity field is excluded from the output,
  silently, and the rest of the batch is processed as if those records were not there: the
  result, an exception included, is that of the batch without them, so such a record never
  causes an error.
\<close>

theorem merge_drops_missing_identity:
  "merge_records records mk = merge_records (filter (\<lambda>r. map_of r mk \<noteq> None) records) mk
   \<and> (\<forall>out. merge_records records mk = Inr out \<longrightarrow>
        (\<forall>r \<in> set out. r \<in> set records \<and> map_of r mk \<noteq> None))"
proof -
  have missing: "\<not> py_truthy (dict_get r mk PNone)" if "\<not> map_of r mk \<noteq> None" for r
    using that by (simp add: dict_get_def)
  have "merge_records (filter (\<lambda>r. map_of r mk \<noteq> None) records) mk = merge_records records mk"
    by (rule merge_records_filter) (rule missing)
  moreover have "r \<in> set records \<and> map_of r mk \<noteq> None"
    if "merge_records records mk = Inr out" "r \<in> set out" for out r
    using merge_records_values [OF that] missing [of r] by blast
  ultimately show ?thesis by auto
qed

theorem merge_drops_missing_identity_witness:
  "merge_records
     [[(''name'', PStr ''x'')], [(''id'', PStr ''7''), (''v'', PInt 3)], [(''v'', PInt 4)]] ''id''
     = Inr [[(''id'', PStr ''7''), (''v'', PInt 3)]]
   \<and> merge_records
     [[(''name'', PStr ''x'')], [(''id'', PStr ''7''), (''v'', PInt 3)], [(''v'', PInt 4)]] ''id''
     = merge_records [[(''id'', PStr ''7''), (''v'', PInt 3)]] ''id''"
proof -
  have "merge_records [[(''id'', PStr ''7''), (''v'', PInt 3)]] ''id''
      = Inr [[(''id'', PStr ''7''), (''v'', PInt 3)]]"
    by (simp add: merge_eval)
  with merge_drops_missing_identity
    [of "[[(''name'', PStr ''x'')], [(''id'', PStr ''7''), (''v'', PInt 3)], [(''v'', PInt 4)]]" "''id''"]
  show ?thesis by simp
qed

lemma scalar_hashable: "is_scalar v \<Longrightarrow> \<exists>h. py_hash_key v = Inr h"
  by (cases v) (simp_all add: is_scalar_def)

lemma group_of_Some_iff:
  "group_of mk r = Some h \<longleftrightarrow>
   py_truthy (dict_get r mk PNone) \<and> py_hash_key (dict_get r mk PNone) = Inr h"
  by (simp add: group_of_def Let_def split: sum.splits)

lemma py_gt_text:
  "text_timestamp a \<Longrightarrow> text_timestamp b \<Longrightarrow>
   py_gt (dict_get a ''_updated_at'' (PStr '''')) (dict_get b ''_updated_at'' (PStr ''''))
     = Inr (updated_raw b < updated_raw a)"
  by (auto simp: text_timestamp_def updated_raw_def split: pyval.splits)

lemma first_latest_snoc:
  assumes "first_latest mk seen h x"
    and "group_of mk r = Some h \<longrightarrow> updated_raw r \<le> updated_raw x"
  shows "first_latest mk (seen @ [r]) h x"
proof -
  from assms(1) obtain before after where
    seen: "seen = before @ x # after"
    and b: "\<forall>y \<in> set before. group_of mk y = Some h \<longrightarrow> updated_raw y < updated_raw x"
    and a: "\<forall>y \<in> set after. group_of mk y = Some h \<longrightarrow> updated_raw y \<le> updated_raw x"
    and gx: "group_of mk x = Some h" "text_timestamp x"
    unfolding first_latest_def by blast
  have "seen @ [r] = before @ x # (after @ [r])"
    using seen by simp
  moreover have "\<forall>y \<in> set (after @ [r]). group_of mk y = Some h \<longrightarrow> updated_raw y \<le> updated_raw x"
    using a assms(2) by auto
  ultimately show ?thesis
    unfolding first_latest_def using b gx by blast
qed

lemma first_latest_new:
  assumes "group_of mk r = Some h" and "text_timestamp r"
    and "\<forall>y \<in> set seen. group_of mk y = Some h \<longrightarrow> updated_raw y < updated_raw r"
  shows "first_latest mk (seen @ [r]) h r"
proof -
  have "seen @ [r] = seen @ r # []" by simp
  moreover have "\<forall>y \<in> set []. group_of mk y = Some h \<longrightarrow> updated_raw y \<le> updated_raw r"
    by simp
  ultimately show ?thesis
    unfolding first_latest_def using assms by blast
qed

lemma first_latest_bound:
  assumes "first_latest mk seen h cur" and "y \<in> set seen" and "group_of mk y = Some h"
  shows "updated_raw y \<le> updated_raw cur"
proof -
  from assms(1) obtain before after where
    seen: "seen = before @ cur # after"
    and b: "\<forall>y \<in> set before. group_of mk y = Some h \<longrightarrow> updated_raw y < updated_raw cur"
    and a: "\<forall>y \<in> set after. group_of mk y = Some h \<longrightarrow> updated_raw y \<le> updated_raw cur"
    unfolding first_latest_def by blast
  from assms(2) seen have "y \<in> set before \<or> y = cur \<or> y \<in> set after" by auto
  with a b assms(3) show ?thesis by (auto intro: less_imp_le)
qed

lemma merge_step_inv:
  assumes inv: "merge_inv mk seen m"
    and stamp: "text_timestamp r"
    and hashable: "py_truthy (dict_get r mk PNone) \<longrightarrow> is_scalar (dict_get r mk PNone)"
  shows "\<exists>m'. merge_step mk m r = Inr m' \<and> merge_inv mk (seen @ [r]) m'"
proof -
  from inv have dist: "distinct (map fst m)"
    and held: "\<And>h x. map_of m h = Some x \<Longrightarrow> first_latest mk seen h x"
    and met: "\<And>y h. y \<in> set seen \<Longrightarrow> group_of mk y = Some h \<Longrightarrow> map_of m h \<noteq> None"
    unfolding merge_inv_def by blast+
  show ?thesis
  proof (cases "py_truthy (dict_get r mk PNone)")
    case False
    then have none: "group_of mk r = None"
      by (simp add: group_of_def)
    have "merge_inv mk (seen @ [r]) m"
      unfolding merge_inv_def
    proof (intro conjI allI impI ballI)
      show "distinct (map fst m)" by (rule dist)
    next
      fix h x assume "map_of m h = Some x"
      then show "first_latest mk (seen @ [r]) h x"
        using held none by (intro first_latest_snoc) simp_all
    next
      fix y h assume "y \<in> set (seen @ [r])" "group_of mk y = Some h"
      with none met show "map_of m h \<noteq> None" by auto
    qed
    with False show ?thesis by (simp add: merge_step_falsy)
  next
    case True
    with hashable scalar_hashable obtain h where h: "py_hash_key (dict_get r mk PNone) = Inr h"
      by blast
    with True have grp: "group_of mk r = Some h"
      by (simp add: group_of_Some_iff)
    show ?thesis
    proof (cases "map_of m h")
      case None
      have step: "merge_step mk m r = Inr (m @ [(h, r)])"
        using True h None by (simp add: merge_step_def)
      have fresh: "h \<notin> fst ` set m"
        using None by (simp add: map_of_eq_None_iff)
      have "merge_inv mk (seen @ [r]) (m @ [(h, r)])"
        unfolding merge_inv_def
      proof (intro conjI allI impI ballI)
        show "distinct (map fst (m @ [(h, r)]))"
          using dist fresh by simp
      next
        fix h' x assume look: "map_of (m @ [(h, r)]) h' = Some x"
        show "first_latest mk (seen @ [r]) h' x"
        proof (cases "map_of m h'")
          case (Some x')
          with look have "x' = x" by (simp add: map_add_def)
          with Some have old: "map_of m h' = Some x" by simp
          with None have "h' \<noteq> h" by auto
          with held [OF old] grp show ?thesis
            by (intro first_latest_snoc) simp_all
        next
          case None': None
          with look have eq: "h' = h" "x = r"
            by (auto simp: map_add_def split: if_splits)
          have "\<forall>y \<in> set seen. group_of mk y = Some h \<longrightarrow> updated_raw y < updated_raw r"
            using met None by blast
          with grp stamp show ?thesis
            unfolding eq by (intro first_latest_new)
        qed
      next
        fix y h' assume y: "y \<in> set (seen @ [r])" "group_of mk y = Some h'"
        show "map_of (m @ [(h, r)]) h' \<noteq> None"
        proof (cases "y \<in> set seen")
          case True
          from met [OF this y(2)] show ?thesis by (auto simp: map_add_def split: option.splits)
        next
          case False
          with y grp have "h' = h" by simp
          then show ?thesis by (auto simp: map_add_def split: option.splits)
        qed
      qed
      with step show ?thesis by blast
    next
      case (Some cur)
      from held [OF Some] have cur: "first_latest mk seen h cur" .
      then have cur_txt: "text_timestamp cur"
        unfolding first_latest_def by blast
      define newer where "newer = (updated_raw cur < updated_raw r)"
      have step: "merge_step mk m r = Inr (if newer then AList.update h r m else m)"
        using True h Some py_gt_text [OF stamp cur_txt]
        by (simp add: merge_step_def newer_def)
      have "merge_inv mk (seen @ [r]) (if newer then AList.update h r m else m)"
      proof (cases newer)
        case True
        have "merge_inv mk (seen @ [r]) (AList.update h r m)"
          unfolding merge_inv_def
        proof (intro conjI allI impI ballI)
          show "distinct (map fst (AList.update h r m))"
            using dist by (simp add: distinct_update)
        next
          fix h' x assume look: "map_of (AList.update h r m) h' = Some x"
          show "first_latest mk (seen @ [r]) h' x"
          proof (cases "h' = h")
            case True
            with look have x: "x = r" by (simp add: update_conv')
            have "\<forall>y \<in> set seen. group_of mk y = Some h \<longrightarrow> updated_raw y < updated_raw r"
            proof (intro ballI impI)
              fix y assume "y \<in> set seen" "group_of mk y = Some h"
              from first_latest_bound [OF cur this] \<open>newer\<close>
              show "updated_raw y < updated_raw r"
                unfolding newer_def by (rule le_less_trans)
            qed
            with grp stamp show ?thesis
              unfolding x True by (intro first_latest_new)
          next
            case False
            with look have old: "map_of m h' = Some x" by (simp add: update_conv')
            from held [OF old] grp False show ?thesis
              by (intro first_latest_snoc) simp_all
          qed
        next
          fix y h' assume y: "y \<in> set (seen @ [r])" "group_of mk y = Some h'"
          show "map_of (AList.update h r m) h' \<noteq> None"
          proof (cases "y \<in> set seen")
            case True
            from met [OF this y(2)] show ?thesis by (simp add: update_conv')
          next
            case False
            with y grp have "h' = h" by simp
            then show ?thesis by (simp add: update_conv')
          qed
        qed
        with True show ?thesis by simp
      next
        case False
        then have le: "updated_raw r \<le> updated_raw cur"
          by (simp add: newer_def)
        have "merge_inv mk (seen @ [r]) m"
          unfolding merge_inv_def
        proof (intro conjI allI impI ballI)
          show "distinct (map fst m)" by (rule dist)
        next
          fix h' x assume look: "map_of m h' = Some x"
          show "first_latest mk (seen @ [r]) h' x"
          proof (rule first_latest_snoc [OF held [OF look]], rule impI)
            assume "group_of mk r = Some h'"
            with grp have "h' = h" by simp
            with look Some have "x = cur" by simp
            with le show "updated_raw r \<le> updated_raw x" by simp
          qed
        next
          fix y h' assume y: "y \<in> set (seen @ [r])" "group_of mk y = Some h'"
          show "map_of m h' \<noteq> None"
          proof (cases "y \<in> set seen")
            case True
            from met [OF this y(2)] show ?thesis .
          next
            case False
            with y grp have "h' = h" by simp
            with Some show ?thesis by simp
          qed
        qed
        with False show ?thesis by simp
      qed
      with step show ?thesis by blast
    qed
  qed
qed

lemma merge_loop_inv:
  assumes "merge_inv mk seen m"
    and "\<forall>r \<in> set rs. text_timestamp r"
    and "\<forall>r \<in> set rs. py_truthy (dict_get r mk PNone) \<longrightarrow> is_scalar (dict_get r mk PNone)"
  shows "\<exists>m'. merge_loop mk m rs = Inr m' \<and> merge_inv mk (seen @ rs) m'"
  using assms
proof (induction rs arbitrary: seen m)
  case Nil
  then show ?case by simp
next
  case (Cons r rs)
  from Cons.prems have "text_timestamp r"
    and "py_truthy (dict_get r mk PNone) \<longrightarrow> is_scalar (dict_get r mk PNone)"
    by simp_all
  from merge_step_inv [OF Cons.prems(1) this] obtain m1 where
    step: "merge_step mk m r = Inr m1" and inv1: "merge_inv mk (seen @ [r]) m1"
    by blast
  from Cons.prems have "\<forall>r \<in> set rs. text_timestamp r"
    and "\<forall>r \<in> set rs. py_truthy (dict_get r mk PNone) \<longrightarrow> is_scalar (dict_get r mk PNone)"
    by simp_all
  from Cons.IH [OF inv1 this] obtain m' where
    "merge_loop mk m1 rs = Inr m'" "merge_inv mk ((seen @ [r]) @ rs) m'"
    by blast
  with step show ?case by simp
qed

lemma merge_inv_empty: "merge_inv mk [] []"
  by (simp add: merge_inv_def)

text \<open>
  The loop keeps, for every group, the first record whose raw timestamp string is greatest.
\<close>

lemma merge_first_latest_raw:
  assumes "\<forall>r \<in> set records. text_timestamp r"
    and "\<forall>r \<in> set records. py_truthy (dict_get r mk PNone) \<longrightarrow> is_scalar (dict_get r mk PNone)"
  shows "\<exists>out. merge_records records mk = Inr out
    \<and> distinct (map (group_of mk) out)
    \<and> (\<forall>r \<in> set out. \<exists>h. first_latest mk records h r)
    \<and> (\<forall>x \<in> set records. group_of mk x \<noteq> None \<longrightarrow>
          (\<exists>r \<in> set out. group_of mk r = group_of mk x))"
proof -
  from merge_loop_inv [OF merge_inv_empty assms] obtain m where
    loop: "merge_loop mk [] records = Inr m" and inv: "merge_inv mk records m"
    by auto
  from inv have dist: "distinct (map fst m)"
    and held: "\<And>h x. map_of m h = Some x \<Longrightarrow> first_latest mk records h x"
    and met: "\<And>y h. y \<in> set records \<Longrightarrow> group_of mk y = Some h \<Longrightarrow> map_of m h \<noteq> None"
    unfolding merge_inv_def by blast+
  have entry: "first_latest mk records h x" if "(h, x) \<in> set m" for h x
    using that dist held by simp
  have res: "merge_records records mk = Inr (map snd m)"
    using loop by (simp add: merge_records_def)
  have "group_of mk (snd p) = Some (fst p)" if "p \<in> set m" for p
    using entry [of "fst p" "snd p"] that by (simp add: first_latest_def)
  then have "map (group_of mk) (map snd m) = map Some (map fst m)"
    by simp
  moreover have "distinct (map Some (map fst m))"
    by (rule iffD2 [OF distinct_map]) (simp add: dist)
  ultimately have d: "distinct (map (group_of mk) (map snd m))"
    by (simp only:)
  have f: "\<forall>r \<in> set (map snd m). \<exists>h. first_latest mk records h r"
    using entry by fastforce
  have c: "\<forall>x \<in> set records. group_of mk x \<noteq> None \<longrightarrow>
      (\<exists>r \<in> set (map snd m). group_of mk r = group_of mk x)"
  proof (intro ballI impI)
    fix x assume x: "x \<in> set records" "group_of mk x \<noteq> None"
    then obtain h where h: "group_of mk x = Some h" by auto
    from met [OF x(1) h] obtain r where r: "map_of m h = Some r" by auto
    then have "(h, r) \<in> set m" by (rule map_of_SomeD)
    then have "r \<in> set (map snd m)" by force
    moreover from held [OF r] have "group_of mk r = Some h"
      by (simp add: first_latest_def)
    ultimately show "\<exists>r \<in> set (map snd m). group_of mk r = group_of mk x"
      using h by auto
  qed
  from res d f c show ?thesis by blast
qed

text \<open>
  The comparison is on the raw strings: the ISO text of 2023-06-01 is greater than the
  text \<^verbatim>\<open>1704067200000\<close>, the milliseconds of 2024-01-01.
\<close>

lemma merge_mixed_formats_raw:
  "merge_records
     [[(''id'', PStr ''1''), (''_updated_at'', PStr ''1704067200000''), (''v'', PInt 1)],
      [(''id'', PStr ''1''), (''_updated_at'', PStr ''2023-06-01T00:00:00Z''), (''v'', PInt 2)]] ''id''
     = Inr [[(''id'', PStr ''1''), (''_updated_at'', PStr ''2023-06-01T00:00:00Z''), (''v'', PInt 2)]]"
  by (simp add: merge_eval)

text \<open>
  C1 (as stated, refuted). Of two records of one group with equal timestamps the first in
  input order is kept, not the last.
\<close>

theorem merge_tie_counterexample:
  "merge_records
     [[(''id'', PStr ''1''), (''_updated_at'', PStr ''2024-01-01T00:00:00Z''), (''v'', PInt 1)],
      [(''id'', PStr ''1''), (''_updated_at'', PStr ''2024-01-01T00:00:00Z''), (''v'', PInt 2)]] ''id''
     = Inr [[(''id'', PStr ''1''), (''_updated_at'', PStr ''2024-01-01T00:00:00Z''), (''v'', PInt 1)]]"
  by (simp add: merge_eval)

text \<open>
  C1 (amended). For every input list whose \<^verbatim>\<open>_updated_at\<close> values are strings
  (absent counts as the empty string) in a format whose text order is the order of the
  parsed timestamps, and whose truthy identity values are scalars,
  \<^verbatim>\<open>merge_records\<close> returns exactly one record for every identity group: the record
  with the greatest parsed timestamp of its group, and of records with equal parsed
  timestamps the first in input order. Every record of the group before it in the input
  has a strictly smaller parsed timestamp, every record after it a smaller or equal one.
\<close>

theorem merge_keeps_latest_parsed:
  fixes parse :: "string \<Rightarrow> 'a::linorder"
  assumes "\<forall>r \<in> set records. text_timestamp r"
    and "\<forall>r \<in> set records. py_truthy (dict_get r mk PNone) \<longrightarrow> is_scalar (dict_get r mk PNone)"
    and "\<forall>x \<in> set records. \<forall>y \<in> set records.
           (updated_raw x < updated_raw y) = (parse (updated_raw x) < parse (updated_raw y))"
  shows "\<exists>out. merge_records records mk = Inr out
    \<and> distinct (map (group_of mk) out)
    \<and> (\<forall>x \<in> set records. group_of mk x \<noteq> None \<longrightarrow>
          (\<exists>r \<in> set out. group_of mk r = group_of mk x))
    \<and> (\<forall>r \<in> set out. group_of mk r \<noteq> None \<and>
          (\<exists>before after. records = before @ r # after
             \<and> (\<forall>x \<in> set before. group_of mk x = group_of mk r \<longrightarrow>
                   parse (updated_raw x) < parse (updated_raw r))
             \<and> (\<forall>x \<in> set after. group_of mk x = group_of mk r \<longrightarrow>
                   parse (updated_raw x) \<le> parse (updated_raw r))))"
proof -
  from merge_first_latest_raw [OF assms(1,2)] obtain out where
    res: "merge_records records mk = Inr out"
    and dist: "distinct (map (group_of mk) out)"
    and latest: "\<forall>r \<in> set out. \<exists>h. first_latest mk records h r"
    and groups: "\<forall>x \<in> set records. group_of mk x \<noteq> None \<longrightarrow>
          (\<exists>r \<in> set out. group_of mk r = group_of mk x)"
    by blast
  have "group_of mk r \<noteq> None \<and>
      (\<exists>before after. records = before @ r # after
         \<and> (\<forall>x \<in> set before. group_of mk x = group_of mk r \<longrightarrow>
               parse (updated_raw x) < parse (updated_raw r))
         \<and> (\<forall>x \<in> set after. group_of mk x = group_of mk r \<longrightarrow>
               parse (updated_raw x) \<le> parse (updated_raw r)))"
    if r: "r \<in> set out" for r
  proof -
    from latest r obtain h before after where
      grp: "group_of mk r = Some h"
      and split: "records = before @ r # after"
      and b: "\<forall>x \<in> set before. group_of mk x = Some h \<longrightarrow> updated_raw x < updated_raw r"
      and a: "\<forall>x \<in> set after. group_of mk x = Some h \<longrightarrow> updated_raw x \<le> updated_raw r"
      unfolding first_latest_def by blast
    from split have mem: "r \<in> set records" "set before \<subseteq> set records" "set after \<subseteq> set records"
      by auto
    have "parse (updated_raw x) < parse (updated_raw r)"
      if "x \<in> set before" "group_of mk x = group_of mk r" for x
      using that b grp mem assms(3) by (metis subsetD)
    moreover have "parse (updated_raw x) \<le> parse (updated_raw r)"
      if "x \<in> set after" "group_of mk x = group_of mk r" for x
    proof -
      from that a grp have "\<not> updated_raw r < updated_raw x" by (simp add: not_less)
      with that(1) mem assms(3) have "\<not> parse (updated_raw r) < parse (updated_raw x)"
        by (metis subsetD)
      then show ?thesis by (simp add: not_less)
    qed
    ultimately show ?thesis using grp split by blast
  qed
  with res dist groups show ?thesis by blast
qed

theorem merge_keeps_latest_parsed_witness:
  "merge_records
     [[(''id'', PStr ''1''), (''_updated_at'', PStr ''2024-01-01T00:00:00Z''), (''v'', PInt 1)],
      [(''id'', PStr ''2''), (''_updated_at'', PStr ''2023-12-31T23:59:59Z''), (''v'', PInt 2)],
      [(''id'', PStr ''1''), (''_updated_at'', PStr ''2024-02-01T00:00:00Z''), (''v'', PInt 3)],
      [(''id'', PStr ''1''), (''_updated_at'', PStr ''2024-02-01T00:00:00Z''), (''v'', PInt 4)]] ''id''
     = Inr [[(''id'', PStr ''1''), (''_updated_at'', PStr ''2024-02-01T00:00:00Z''), (''v'', PInt 3)],
            [(''id'', PStr ''2''), (''_updated_at'', PStr ''2023-12-31T23:59:59Z''), (''v'', PInt 2)]]
   \<and> iso_utc_fields ''2024-02-01T00:00:00Z'' = [2024, 2, 1, 0, 0, 0]
   \<and> (\<exists>out. merge_records
     [[(''id'', PStr ''1''), (''_updated_at'', PStr ''2024-01-01T00:00:00Z''), (''v'', PInt 1)],
      [(''id'', PStr ''2''), (''_updated_at'', PStr ''2023-12-31T23:59:59Z''), (''v'', PInt 2)],
      [(''id'', PStr ''1''), (''_updated_at'', PStr ''2024-02-01T00:00:00Z''), (''v'', PInt 3)],
      [(''id'', PStr ''1''), (''_updated_at'', PStr ''2024-02-01T00:00:00Z''), (''v'', PInt 4)]] ''id''
       = Inr out \<and> distinct (map (group_of ''id'') out))"
proof -
  let ?rs = "[[(''id'', PStr ''1''), (''_updated_at'', PStr ''2024-01-01T00:00:00Z''), (''v'', PInt 1)],
      [(''id'', PStr ''2''), (''_updated_at'', PStr ''2023-12-31T23:59:59Z''), (''v'', PInt 2)],
      [(''id'', PStr ''1''), (''_updated_at'', PStr ''2024-02-01T00:00:00Z''), (''v'', PInt 3)],
      [(''id'', PStr ''1''), (''_updated_at'', PStr ''2024-02-01T00:00:00Z''), (''v'', PInt 4)]]"
  have 1: "\<forall>r \<in> set ?rs. text_timestamp r"
    by (simp add: text_timestamp_def dict_get_def)
  have 2: "\<forall>r \<in> set ?rs. py_truthy (dict_get r ''id'' PNone) \<longrightarrow> is_scalar (dict_get r ''id'' PNone)"
    by (simp add: is_scalar_def dict_get_def)
  have f: "iso_utc_fields ''2024-01-01T00:00:00Z'' = [2024, 1, 1, 0, 0, 0]"
    "iso_utc_fields ''2023-12-31T23:59:59Z'' = [2023, 12, 31, 23, 59, 59]"
    "iso_utc_fields ''2024-02-01T00:00:00Z'' = [2024, 2, 1, 0, 0, 0]"
    by (simp_all add: iso_utc_fields_def digits_value_def)
  have 3: "\<forall>x \<in> set ?rs. \<forall>y \<in> set ?rs.
      (updated_raw x < updated_raw y) = (iso_utc_fields (updated_raw x) < iso_utc_fields (updated_raw y))"
    by (simp add: updated_raw_def dict_get_def f)
  from merge_keeps_latest_parsed [OF 1 2 3] obtain out where
    "merge_records ?rs ''id'' = Inr out" "distinct (map (group_of ''id'') out)"
    by blast
  moreover have "merge_records ?rs ''id''
     = Inr [[(''id'', PStr ''1''), (''_updated_at'', PStr ''2024-02-01T00:00:00Z''), (''v'', PInt 3)],
            [(''id'', PStr ''2''), (''_updated_at'', PStr ''2023-12-31T23:59:59Z''), (''v'', PInt 2)]]"
    by (simp add: merge_eval)
  ultimately show ?thesis using f(3) by blast
qed

section \<open>Properties of \<^verbatim>\<open>parse_fulcrum_date\<close>\<close>

lemma parse_result:
  "parse_fulcrum_date lib s =
     (if s = [] then (Inr None, [])
      else case iso_attempt lib s of
        Inr d \<Rightarrow> (Inr (Some d), [])
      | Inl e \<Rightarrow>
          if e \<noteq> ValueError then (Inl e, [])
          else case millis_attempt lib s of
            Inr d \<Rightarrow> (Inr (Some d), [])
          | Inl e' \<Rightarrow>
              if e' = ValueError \<or> e' = OSError then (Inr None, [could_not_parse s])
              else (Inl e', []))"
  by (simp add: parse_fulcrum_date_def except_value_os_def split: sum.splits)




text \<open>
  An exception of the second attempt other than ValueError and OSError is not caught.
\<close>

lemma parse_uncaught_exception:
  "s \<noteq> [] \<Longrightarrow> iso_attempt lib s = Inl ValueError \<Longrightarrow> millis_attempt lib s = Inl e \<Longrightarrow>
   e \<noteq> ValueError \<Longrightarrow> e \<noteq> OSError \<Longrightarrow> parse_fulcrum_date lib s = (Inl e, [])"
  by (simp add: parse_result)

lemma parse_infinity_raises:
  "parse_fulcrum_date sample_lib ''inf'' = (Inl OverflowError, [])"
  by (simp add: parse_result sample_lib_def iso_attempt_def millis_attempt_def replace_Z_def)

end
